theory Spec2Isabelle
  imports Main "HOL-Library.Sublist"
begin

text \<open>
  A model of \<open>snow.js\<close>, the rain effect of aSocket: the classes \<open>Controller\<close>
  and \<open>rainflake\<close>, the construction of the page by \<open>main\<close> and the command
  dispatcher. Objects are records, the DOM and the timers are an explicit host state that
  every method takes and returns, and a thrown exception is the left summand of the
  result. The theorems settle the claims of the specification about the pool of
  particles, the test of \<open>animate\<close>, \<open>resize\<close>, \<open>start\<close>, \<open>stop\<close>,
  \<open>clear\<close>, \<open>remove\<close> and the dispatcher.
\<close>


section \<open>Numbers and their pixel-string encoding\<close>

text \<open>
  The script computes with JavaScript numbers. The model keeps the integer pixel values
  and NaN: \<open>Num n\<close> is the number \<open>n\<close>, and every operation follows the
  ECMAScript rule that NaN is absorbing in arithmetic and makes every comparison false.
  Fractions, infinities and the rounding of doubles are outside this fragment.
\<close>

datatype jsnum = Num int | NaN

fun jadd :: "jsnum \<Rightarrow> jsnum \<Rightarrow> jsnum" where
  "jadd (Num a) (Num b) = Num (a + b)"
| "jadd _ _ = NaN"

fun jsub :: "jsnum \<Rightarrow> jsnum \<Rightarrow> jsnum" where
  "jsub (Num a) (Num b) = Num (a - b)"
| "jsub _ _ = NaN"

fun jgt :: "jsnum \<Rightarrow> jsnum \<Rightarrow> bool" where
  "jgt (Num a) (Num b) = (b < a)"
| "jgt _ _ = False"

fun jlt :: "jsnum \<Rightarrow> jsnum \<Rightarrow> bool" where
  "jlt (Num a) (Num b) = (a < b)"
| "jlt _ _ = False"

definition digit_char :: "nat \<Rightarrow> char" where
  "digit_char d = char_of (48 + d)"

definition digit_value :: "char \<Rightarrow> nat option" where
  "digit_value c =
     (let k = (of_char c :: nat) in if 48 \<le> k \<and> k \<le> 57 then Some (k - 48) else None)"

fun digits :: "nat \<Rightarrow> string" where
  "digits n = (if n < 10 then [digit_char n] else digits (n div 10) @ [digit_char (n mod 10)])"

declare digits.simps [simp del]

fun parse_digits :: "nat \<Rightarrow> string \<Rightarrow> nat option" where
  "parse_digits acc [] = Some acc"
| "parse_digits acc (c # cs) =
     (case digit_value c of None \<Rightarrow> None | Some d \<Rightarrow> parse_digits (10 * acc + d) cs)"

text \<open>
  \<open>to_string\<close> is the conversion a number undergoes in \<open>value + 'px'\<close> and in the
  template literal of the constructor: the decimal digits, a leading minus sign for a
  negative number, and the text NaN. (A double that is an integer prints like this as
  long as it is below \<open>10^21\<close> in absolute value.)
\<close>

definition to_string :: "jsnum \<Rightarrow> string" where
  "to_string v =
     (case v of
        NaN \<Rightarrow> ''NaN''
      | Num n \<Rightarrow> (if n < 0 then CHR ''-'' # digits (nat (- n)) else digits (nat n)))"

definition unsigned_literal :: "string \<Rightarrow> jsnum" where
  "unsigned_literal s =
     (if s = [] then NaN
      else case parse_digits 0 s of None \<Rightarrow> NaN | Some n \<Rightarrow> Num (int n))"

text \<open>
  \<open>Number(s)\<close> on the integer fragment: the empty string is 0, an optionally signed
  run of decimal digits is its value, and any other text is NaN.
\<close>

definition Number :: "string \<Rightarrow> jsnum" where
  "Number s =
     (case s of
        [] \<Rightarrow> Num 0
      | c # cs \<Rightarrow>
          if c = CHR ''-'' then (case unsigned_literal cs of Num n \<Rightarrow> Num (- n) | NaN \<Rightarrow> NaN)
          else if c = CHR ''+'' then unsigned_literal cs
          else unsigned_literal s)"

text \<open>
  \<open>String.prototype.replace\<close> with a string pattern rewrites the first occurrence
  only and returns the text unchanged when there is none.
\<close>

fun replace :: "string \<Rightarrow> string \<Rightarrow> string \<Rightarrow> string" where
  "replace pat rep [] = (if pat = [] then rep else [])"
| "replace pat rep (c # cs) =
     (if prefix pat (c # cs) then rep @ drop (length pat) (c # cs)
      else c # replace pat rep cs)"


section \<open>The host: container, element styles, timers' handles, randomness\<close>

text \<open>
  An element is known by the number \<open>document.createElement\<close> gave it. Of an
  element's state the script reads and writes three style properties; they are kept as
  the strings the script assigns. \<open>children\<close> lists the elements attached to the
  shared rain container, in document order.

  \<open>entropy\<close> and \<open>draws\<close> stand for \<open>Math.random\<close>: each call consumes
  the next entry. \<open>client_width\<close> and \<open>client_height\<close> are
  \<open>document.documentElement.clientWidth\<close> and \<open>clientHeight\<close>.
\<close>

record style =
  style_left :: string
  style_top :: string
  style_filter :: string

record DOMRect =
  rect_x :: jsnum
  rect_y :: jsnum
  rect_width :: jsnum
  rect_height :: jsnum

record host =
  styles :: "nat \<Rightarrow> style"
  children :: "nat list"
  next_element :: nat
  next_handle :: nat
  entropy :: "nat \<Rightarrow> nat"
  draws :: nat
  client_width :: jsnum
  client_height :: jsnum

text \<open>
  \<open>getBoundingClientRect\<close> is computed by the browser's layout from the element's
  style and the geometry of the container. The layout is a parameter of the model: a
  function from the style of an element to its rectangle in viewport coordinates.
\<close>

type_synonym layout = "style \<Rightarrow> DOMRect"

text \<open>
  \<open>Math.random() * w\<close> in the integer fragment: a value between 0 (included) and
  \<open>w\<close> (excluded), chosen by the next entry of the entropy.
\<close>

definition random_times :: "jsnum \<Rightarrow> host \<Rightarrow> jsnum \<times> host" where
  "random_times w h =
     (let r = entropy h (draws h);
          h' = h\<lparr>draws := draws h + 1\<rparr>
      in (case w of
            NaN \<Rightarrow> NaN
          | Num n \<Rightarrow> if n = 0 then Num 0 else Num (sgn n * int (r mod nat \<bar>n\<bar>)), h'))"


section \<open>Class rainflake\<close>

text \<open>
  A rainflake object owns exactly one element and has no other state, so the object is
  identified with its element. The constructor sets the three style properties and
  appends the element to the container. (The constructor also stores an unattached
  element under \<open>element.img\<close>; nothing reads it.)
\<close>

definition new_rainflake :: "jsnum \<Rightarrow> jsnum \<Rightarrow> jsnum \<Rightarrow> host \<Rightarrow> nat \<times> host" where
  "new_rainflake x y blur h =
     (let e = next_element h
      in (e, h\<lparr>styles := (styles h)(e :=
                  \<lparr>style_left = to_string x @ ''px'',
                   style_top = to_string y @ ''px'',
                   style_filter = ''blur('' @ to_string blur @ ''px)''\<rparr>),
               children := children h @ [e],
               next_element := e + 1\<rparr>))"

definition get_top :: "host \<Rightarrow> nat \<Rightarrow> jsnum" where
  "get_top h e = Number (replace ''px'' '''' (style_top (styles h e)))"

definition set_top :: "nat \<Rightarrow> jsnum \<Rightarrow> host \<Rightarrow> host" where
  "set_top e v h = h\<lparr>styles := (styles h)(e := (styles h e)\<lparr>style_top := to_string v @ ''px''\<rparr>)\<rparr>"

definition get_left :: "host \<Rightarrow> nat \<Rightarrow> jsnum" where
  "get_left h e = Number (replace ''px'' '''' (style_left (styles h e)))"

definition set_left :: "nat \<Rightarrow> jsnum \<Rightarrow> host \<Rightarrow> host" where
  "set_left e v h = h\<lparr>styles := (styles h)(e := (styles h e)\<lparr>style_left := to_string v @ ''px''\<rparr>)\<rparr>"

definition bounds :: "layout \<Rightarrow> host \<Rightarrow> nat \<Rightarrow> DOMRect" where
  "bounds L h e = L (styles h e)"

text \<open>\<open>element.remove()\<close>: the element leaves its parent's child list.\<close>

definition element_remove :: "nat \<Rightarrow> host \<Rightarrow> host" where
  "element_remove e h = h\<lparr>children := filter (\<lambda>c. c \<noteq> e) (children h)\<rparr>"


section \<open>Class Controller\<close>

record config =
  LIMIT :: jsnum
  BLUR :: jsnum
  FALL_RATE :: jsnum
  SWAY_RATE :: jsnum

text \<open>
  The first six fields are the properties of the object (\<open>this.document\<close> is split
  into its two members; \<open>this.body\<close> is the one shared container of the host). A
  property that was never assigned reads as undefined: \<open>active\<close> is then
  \<open>False\<close> and \<open>interval\<close> is \<open>None\<close>.

  The last two fields are the part of the event loop that closes over this controller:
  \<open>ticks\<close> holds the handles of the live \<open>setInterval\<close> registrations whose
  callback is \<open>this.animate()\<close>, and \<open>sleepers\<close> holds, for every call of
  \<open>generate\<close> suspended at its \<open>await\<close>, the value of its loop counter
  \<open>i\<close>. The script never cancels a timeout, so only intervals carry a handle.
\<close>

record controller =
  config :: config
  rainflakes :: "nat list"
  document_width :: jsnum
  document_height :: jsnum
  active :: bool
  interval :: "nat option"
  ticks :: "nat list"
  sleepers :: "nat list"

text \<open>\<open>Array.prototype.indexOf\<close>: the first index holding the value, or -1.\<close>

primrec indexOf :: "'a list \<Rightarrow> 'a \<Rightarrow> int" where
  "indexOf [] x = - 1"
| "indexOf (y # ys) x =
     (if y = x then 0 else (let k = indexOf ys x in if k < 0 then - 1 else k + 1))"

text \<open>
  \<open>Array.prototype.splice(start, deleteCount)\<close> without inserted items: a negative
  start counts from the end, clamped at 0; a start beyond the end is the end.
\<close>

definition splice :: "int \<Rightarrow> nat \<Rightarrow> 'a list \<Rightarrow> 'a list" where
  "splice start deleteCount xs =
     (let len = int (length xs);
          actualStart = (if start < 0 then max (len + start) 0 else min start len);
          k = nat actualStart
      in take k xs @ drop (k + deleteCount) xs)"

fun spawn :: "controller \<times> host \<Rightarrow> controller \<times> host" where
  "spawn (c, h) =
     (case random_times (document_width c) h of
        (x, h1) \<Rightarrow>
          (case new_rainflake x (Num 0) (BLUR (config c)) h1 of
             (e, h2) \<Rightarrow> (c\<lparr>rainflakes := rainflakes c @ [e]\<rparr>, h2)))"

text \<open>
  \<open>generate\<close> is an async function. \<open>generate_loop i\<close> is the head of its loop at
  counter \<open>i\<close>: when \<open>i < LIMIT\<close> the call draws the random delay, arms the
  timer and suspends; otherwise it returns. \<open>generate_resume i\<close> is what runs when
  the timer of a suspended call fires: the check of \<open>active\<close>, the spawn, the
  increment and the next loop head.
\<close>

fun generate_loop :: "nat \<Rightarrow> controller \<times> host \<Rightarrow> controller \<times> host" where
  "generate_loop i (c, h) =
     (if jlt (Num (int i)) (LIMIT (config c))
      then (c\<lparr>sleepers := sleepers c @ [i]\<rparr>, h\<lparr>draws := draws h + 1\<rparr>)
      else (c, h))"

fun generate :: "controller \<times> host \<Rightarrow> controller \<times> host" where
  "generate (c, h) = generate_loop (length (rainflakes c)) (c, h)"

fun generate_resume :: "nat \<Rightarrow> controller \<times> host \<Rightarrow> controller \<times> host" where
  "generate_resume i (c, h) =
     (if \<not> active c then (c, h) else generate_loop (i + 1) (spawn (c, h)))"

fun start :: "controller \<times> host \<Rightarrow> controller \<times> host" where
  "start (c, h) =
     (if active c then (c, h)
      else (case generate (c\<lparr>active := True\<rparr>, h) of
              (c1, h1) \<Rightarrow>
                (c1\<lparr>interval := Some (next_handle h1), ticks := ticks c1 @ [next_handle h1]\<rparr>,
                 h1\<lparr>next_handle := next_handle h1 + 1\<rparr>)))"

fun remove :: "nat \<Rightarrow> controller \<times> host \<Rightarrow> controller \<times> host" where
  "remove p (c, h) =
     (c\<lparr>rainflakes := splice (indexOf (rainflakes c) p) 1 (rainflakes c)\<rparr>, element_remove p h)"

text \<open>The test of line 238 of \<open>animate\<close>, on the rectangle \<open>rainflake.bounds\<close>.\<close>

definition out_of_bounds :: "controller \<Rightarrow> DOMRect \<Rightarrow> bool" where
  "out_of_bounds c b =
     (jgt (rect_x b) (jadd (document_width c) (rect_width b))
      \<or> jgt (rect_y b) (jadd (document_height c) (rect_height b)))"

text \<open>
  The body of the loop of \<open>animate\<close> for the particle \<open>p\<close>: \<open>fall\<close> is the
  assignment of line 234, then the bounds are read and tested.
\<close>

fun fall :: "nat \<Rightarrow> controller \<times> host \<Rightarrow> host" where
  "fall p (c, h) = set_top p (jadd (get_top h p) (FALL_RATE (config c))) h"

fun animate_body :: "layout \<Rightarrow> nat \<Rightarrow> controller \<times> host \<Rightarrow> controller \<times> host" where
  "animate_body L p (c, h) =
     (let h1 = fall p (c, h)
      in if out_of_bounds c (bounds L h1 p) then spawn (remove p (c, h1)) else (c, h1))"

fun clear :: "controller \<times> host \<Rightarrow> controller \<times> host" where
  "clear (c, h) = (c\<lparr>rainflakes := []\<rparr>, fold element_remove (rainflakes c) h)"

fun stop :: "controller \<times> host \<Rightarrow> controller \<times> host" where
  "stop (c, h) =
     (c\<lparr>active := False,
        ticks := (case interval c of None \<Rightarrow> ticks c | Some t \<Rightarrow> filter (\<lambda>u. u \<noteq> t) (ticks c)),
        interval := None\<rparr>, h)"

definition resize_body :: "jsnum \<Rightarrow> jsnum \<Rightarrow> controller \<Rightarrow> nat \<Rightarrow> host \<Rightarrow> host" where
  "resize_body width height c p h =
     (let h1 = set_left p (jadd (get_left h p) (jsub width (document_width c))) h
      in set_top p (jadd (get_top h1 p) (jsub height (document_height c))) h1)"

fun resize :: "jsnum \<Rightarrow> jsnum \<Rightarrow> controller \<times> host \<Rightarrow> controller \<times> host" where
  "resize width height (c, h) =
     (c\<lparr>document_width := width, document_height := height\<rparr>,
      fold (resize_body width height c) (rainflakes c) h)"


subsection \<open>The loop of animate\<close>

lemma indexOf_range:
  "x \<in> set xs \<Longrightarrow> 0 \<le> indexOf xs x \<and> indexOf xs x < int (length xs)"
  by (induction xs) (auto simp: Let_def)

lemma indexOf_absent: "x \<notin> set xs \<Longrightarrow> indexOf xs x = - 1"
  by (induction xs) (auto simp: Let_def)

lemma length_splice_one:
  "0 \<le> k \<Longrightarrow> k < int (length xs) \<Longrightarrow> length (splice k 1 xs) = length xs - 1"
  by (auto simp: splice_def Let_def)

lemma length_spawn: "length (rainflakes (fst (spawn s))) = Suc (length (rainflakes (fst s)))"
  by (cases s) (simp add: random_times_def new_rainflake_def Let_def split: prod.splits)

lemma length_remove_member:
  "p \<in> set (rainflakes (fst s)) \<Longrightarrow>
     length (rainflakes (fst (remove p s))) = length (rainflakes (fst s)) - 1"
  using length_splice_one [of "indexOf (rainflakes (fst s)) p" "rainflakes (fst s)"]
    indexOf_range [of p "rainflakes (fst s)"]
  by (cases s) simp

lemma length_animate_body:
  assumes "p \<in> set (rainflakes (fst s))"
  shows "length (rainflakes (fst (animate_body L p s))) = length (rainflakes (fst s))"
proof -
  obtain c h where s: "s = (c, h)" by (cases s)
  from assms s have "rainflakes c \<noteq> []" by auto
  then have "0 < length (rainflakes c)" by simp
  with assms s show ?thesis
    using length_remove_member [of p "(c, fall p (c, h))"]
    by (simp add: Let_def length_spawn del: remove.simps spawn.simps fall.simps)
qed

text \<open>
  \<open>for (const rainflake of this.rainflakes)\<close> runs the array iterator: at every step it
  compares its index with the current length of the array, reads the element at the
  index and advances, while the body splices and pushes the same array.
\<close>

function animate_from :: "layout \<Rightarrow> nat \<Rightarrow> controller \<times> host \<Rightarrow> controller \<times> host" where
  "animate_from L i s =
     (if i < length (rainflakes (fst s))
      then animate_from L (i + 1) (animate_body L (rainflakes (fst s) ! i) s)
      else s)"
  by pat_completeness auto
termination
  by (relation "measure (\<lambda>(L, i, s). length (rainflakes (fst s)) - i)")
    (auto simp: length_animate_body simp del: animate_body.simps)

declare animate_from.simps [simp del]

definition animate :: "layout \<Rightarrow> controller \<times> host \<Rightarrow> controller \<times> host" where
  "animate L s = animate_from L 0 s"


section \<open>Time: the timers that fire\<close>

text \<open>
  Between two calls from the page nothing happens but timers firing, one at a time, in
  an order the random delays decide. \<open>Tick t\<close> is a firing of the interval with handle
  \<open>t\<close>: it runs \<open>animate\<close> when that registration is live, and there is nothing to
  run when it has been cleared. \<open>Wake k\<close> is the timeout of the \<open>k\<close>-th suspended
  call of \<open>generate\<close>: the call leaves the list and runs on from its \<open>await\<close>.
\<close>

datatype event = Tick nat | Wake nat

fun fire :: "layout \<Rightarrow> event \<Rightarrow> controller \<times> host \<Rightarrow> controller \<times> host" where
  "fire L (Tick t) (c, h) = (if t \<in> set (ticks c) then animate L (c, h) else (c, h))"
| "fire L (Wake k) (c, h) =
     (if k < length (sleepers c)
      then generate_resume (sleepers c ! k)
             (c\<lparr>sleepers := take k (sleepers c) @ drop (Suc k) (sleepers c)\<rparr>, h)
      else (c, h))"

definition elapse :: "layout \<Rightarrow> event list \<Rightarrow> controller \<times> host \<Rightarrow> controller \<times> host" where
  "elapse L evs s = fold (fire L) evs s"


section \<open>The page: construction and the command dispatcher\<close>

text \<open>
  The constructor assigns its fields (\<open>Controller_fields\<close>: no timer closes over
  the new object yet) and then calls \<open>this.start()\<close>.
\<close>

definition Controller_fields :: "config \<Rightarrow> host \<Rightarrow> controller" where
  "Controller_fields layer h =
     \<lparr>config = layer, rainflakes = [],
      document_width = client_width h, document_height = client_height h,
      active = False, interval = None, ticks = [], sleepers = []\<rparr>"

definition new_Controller :: "config \<Rightarrow> host \<Rightarrow> controller \<times> host" where
  "new_Controller layer h = start (Controller_fields layer h, h)"

definition CONFIG :: "config list" where
  "CONFIG =
     [\<lparr>LIMIT = Num 30, BLUR = Num 0, FALL_RATE = Num 50, SWAY_RATE = Num 0\<rparr>,
      \<lparr>LIMIT = Num 30, BLUR = Num 0, FALL_RATE = Num 30, SWAY_RATE = Num 0\<rparr>,
      \<lparr>LIMIT = Num 30, BLUR = Num 0, FALL_RATE = Num 30, SWAY_RATE = Num 0\<rparr>]"

record page =
  controllers :: "controller list"
  page_host :: host

fun construct_layers :: "config list \<Rightarrow> host \<Rightarrow> controller list \<times> host" where
  "construct_layers [] h = ([], h)"
| "construct_layers (layer # layers) h =
     (case new_Controller layer h of
        (c, h1) \<Rightarrow> (case construct_layers layers h1 of (cs, h2) \<Rightarrow> (c # cs, h2)))"

text \<open>
  \<open>main\<close> creates the container, empty, and one controller per layer of the
  configuration. Its resize listener is \<open>window_resized\<close>.
\<close>

definition main :: "host \<Rightarrow> page" where
  "main h =
     (case construct_layers CONFIG (h\<lparr>children := []\<rparr>) of
        (cs, h') \<Rightarrow> \<lparr>controllers = cs, page_host = h'\<rparr>)"

fun resize_all :: "controller list \<Rightarrow> host \<Rightarrow> controller list \<times> host" where
  "resize_all [] h = ([], h)"
| "resize_all (c # cs) h =
     (case resize (client_width h) (client_height h) (c, h) of
        (c', h1) \<Rightarrow> (case resize_all cs h1 of (cs', h2) \<Rightarrow> (c' # cs', h2)))"

definition window_resized :: "page \<Rightarrow> page" where
  "window_resized pg =
     (case resize_all (controllers pg) (page_host pg) of
        (cs, h) \<Rightarrow> \<lparr>controllers = cs, page_host = h\<rparr>)"

text \<open>
  \<open>controller[cmd]\<close> looks a name up among the properties the constructor,
  \<open>start\<close> and \<open>stop\<close> assign and among the methods of the class. What the
  object inherits from the built-in \<open>Object.prototype\<close> is not part of the script and
  is left out. A data property is described by its truthiness: objects and arrays are
  truthy, \<open>active\<close> is a boolean, and \<open>interval\<close> is a non-zero handle, null or
  undefined.
\<close>

datatype error = TypeError

datatype method_name =
  M_constructor | M_start | M_spawn | M_generate | M_animate | M_remove | M_clear | M_stop | M_resize

datatype property = Undefined | Data bool | Method method_name

definition get_property :: "controller \<Rightarrow> string \<Rightarrow> property" where
  "get_property c name =
     (if name = ''body'' then Data True
      else if name = ''config'' then Data True
      else if name = ''rainflakes'' then Data True
      else if name = ''document'' then Data True
      else if name = ''active'' then Data (active c)
      else if name = ''interval'' then Data (interval c \<noteq> None)
      else if name = ''constructor'' then Method M_constructor
      else if name = ''start'' then Method M_start
      else if name = ''spawn'' then Method M_spawn
      else if name = ''generate'' then Method M_generate
      else if name = ''animate'' then Method M_animate
      else if name = ''remove'' then Method M_remove
      else if name = ''clear'' then Method M_clear
      else if name = ''stop'' then Method M_stop
      else if name = ''resize'' then Method M_resize
      else Undefined)"

fun truthy :: "property \<Rightarrow> bool" where
  "truthy Undefined = False"
| "truthy (Data b) = b"
| "truthy (Method m) = True"

text \<open>
  \<open>controller[cmd]()\<close>: a call without arguments. Calling what is not a function
  throws a TypeError, and so does calling a class constructor without \<open>new\<close>.
  \<open>remove()\<close> reads \<open>element\<close> of its undefined argument and throws; the state
  it leaves behind is not kept by the error value. In \<open>resize()\<close> both arguments
  are undefined, which every use in the script converts to NaN.
\<close>

fun call :: "layout \<Rightarrow> property \<Rightarrow> controller \<times> host \<Rightarrow> error + controller \<times> host" where
  "call L (Method M_start) s = Inr (start s)"
| "call L (Method M_spawn) s = Inr (spawn s)"
| "call L (Method M_generate) s = Inr (generate s)"
| "call L (Method M_animate) s = Inr (animate L s)"
| "call L (Method M_clear) s = Inr (clear s)"
| "call L (Method M_stop) s = Inr (stop s)"
| "call L (Method M_resize) s = Inr (resize NaN NaN s)"
| "call L (Method M_remove) s = Inl TypeError"
| "call L (Method M_constructor) s = Inl TypeError"
| "call L (Data b) s = Inl TypeError"
| "call L Undefined s = Inl TypeError"

fun command_loop ::
  "layout \<Rightarrow> string \<Rightarrow> controller list \<Rightarrow> host \<Rightarrow> error + controller list \<times> host" where
  "command_loop L cmd [] h = Inr ([], h)"
| "command_loop L cmd (c # cs) h =
     (case call L (get_property c cmd) (c, h) of
        Inl e \<Rightarrow> Inl e
      | Inr (c', h1) \<Rightarrow>
          (case command_loop L cmd cs h1 of
             Inl e \<Rightarrow> Inl e
           | Inr (cs', h2) \<Rightarrow> Inr (c' # cs', h2)))"

text \<open>
  \<open>aSocketrain.command\<close>: reading a property of \<open>controllers[0]\<close> when there is no
  controller throws; a falsy property of the first controller ends the command.
\<close>

definition command :: "layout \<Rightarrow> string \<Rightarrow> page \<Rightarrow> error + page" where
  "command L cmd pg =
     (case controllers pg of
        [] \<Rightarrow> Inl TypeError
      | c0 # _ \<Rightarrow>
          if \<not> truthy (get_property c0 cmd) then Inr pg
          else (case command_loop L cmd (controllers pg) (page_host pg) of
                  Inl e \<Rightarrow> Inl e
                | Inr (cs, h) \<Rightarrow> Inr \<lparr>controllers = cs, page_host = h\<rparr>))"

text \<open>
  The layout the injected style sheet asks for: a flake is an absolutely positioned box,
  3px wide and 30px high, at its \<open>left\<close> and \<open>top\<close> offsets from the corner of the
  container, which lies at \<open>(ox, oy)\<close> in the viewport.
\<close>

definition sheet_layout :: "int \<Rightarrow> int \<Rightarrow> layout" where
  "sheet_layout ox oy st =
     \<lparr>rect_x = jadd (Num ox) (Number (replace ''px'' '''' (style_left st))),
      rect_y = jadd (Num oy) (Number (replace ''px'' '''' (style_top st))),
      rect_width = Num 3,
      rect_height = Num 30\<rparr>"


section \<open>Predicates of the statements\<close>

text \<open>
  Following the words of the specification, not the code: a particle is out of bounds
  when the right edge of its box, \<open>x + width\<close>, exceeds the width of the viewport plus
  the width of the box, or its bottom edge, \<open>y + height\<close>, exceeds the height of the
  viewport plus the height of the box.
\<close>

definition spec_out_of_bounds :: "controller \<Rightarrow> DOMRect \<Rightarrow> bool" where
  "spec_out_of_bounds c b =
     (jgt (jadd (rect_x b) (rect_width b)) (jadd (document_width c) (rect_width b))
      \<or> jgt (jadd (rect_y b) (rect_height b)) (jadd (document_height c) (rect_height b)))"

text \<open>
  \<open>only_pool_changed c c'\<close>: the two controllers agree on everything but the pool.
  \<open>pool_fresh\<close>: the pool holds no particle twice, and only particles that were
  created. \<open>ticks_owned\<close>: the live intervals are at most the one \<open>this.interval\<close>
  holds, and there is none while the controller is not active.
\<close>

definition only_pool_changed :: "controller \<Rightarrow> controller \<Rightarrow> bool" where
  "only_pool_changed c c' =
     (config c' = config c \<and> document_width c' = document_width c
      \<and> document_height c' = document_height c \<and> active c' = active c
      \<and> interval c' = interval c \<and> ticks c' = ticks c \<and> sleepers c' = sleepers c)"

definition pool_fresh :: "controller \<times> host \<Rightarrow> bool" where
  "pool_fresh s =
     (distinct (rainflakes (fst s)) \<and> list_all (\<lambda>q. q < next_element (snd s)) (rainflakes (fst s)))"

definition ticks_owned :: "controller \<Rightarrow> bool" where
  "ticks_owned c = (set (ticks c) \<subseteq> set_option (interval c) \<and> (active c \<or> ticks c = []))"

text \<open>
  A call of \<open>generate\<close> suspended at counter \<open>i\<close> will spawn \<open>l - i\<close> more
  particles if nothing stops it, \<open>l\<close> being the limit. \<open>backlog\<close> adds this up over
  the suspended calls; \<open>sleepers_below\<close> says that each of them passed the test
  \<open>i < l\<close> of the loop, as a call must have to be suspended.
\<close>

definition backlog :: "int \<Rightarrow> controller \<Rightarrow> nat" where
  "backlog l c = sum_list (map (\<lambda>i. nat (l - int i)) (sleepers c))"

definition sleepers_below :: "int \<Rightarrow> controller \<Rightarrow> bool" where
  "sleepers_below l c = list_all (\<lambda>i. int i < l) (sleepers c)"

text \<open>
  The states of one controller and the host that the script can reach: the constructor
  built the controller; the page calls its methods, through the dispatcher or the resize
  listener; timers fire; and the rest of the page (the other controllers) acts on the
  shared host, where an element number, once given, is never given again.
\<close>

inductive reachable :: "layout \<Rightarrow> controller \<times> host \<Rightarrow> bool" for L :: layout where
  constructed: "reachable L (new_Controller layer h)"
| started: "reachable L s \<Longrightarrow> reachable L (start s)"
| stopped: "reachable L s \<Longrightarrow> reachable L (stop s)"
| spawned: "reachable L s \<Longrightarrow> reachable L (spawn s)"
| cleared: "reachable L s \<Longrightarrow> reachable L (clear s)"
| generated: "reachable L s \<Longrightarrow> reachable L (generate s)"
| animated: "reachable L s \<Longrightarrow> reachable L (animate L s)"
| resized: "reachable L s \<Longrightarrow> reachable L (resize w hg s)"
| fired: "reachable L s \<Longrightarrow> reachable L (fire L ev s)"
| elsewhere: "reachable L (c, h) \<Longrightarrow> next_element h \<le> next_element h' \<Longrightarrow> reachable L (c, h')"


section \<open>Concrete inputs\<close>

text \<open>
  \<open>fresh_host w h\<close> is a browser window of the given client size in which nothing has
  been created yet; \<open>scenario_layer\<close> is the layer of the scenario of the
  specification.

  \<^item> \<open>scenario_start\<close>: that layer in a window of 100 by 100, after the one delayed
    spawn of \<open>generate\<close>: one particle, at \<open>y = 0\<close>.
  \<^item> \<open>short_window\<close>: the same in a window of 100 by 90.
  \<^item> \<open>over_limit\<close>: from \<open>scenario_start\<close>, the page calls \<open>spawn\<close>,
    \<open>stop\<close> and \<open>start\<close>, and the new interval fires once.
  \<^item> \<open>two_flakes\<close>: a new controller of that layer on which \<open>spawn\<close> was called
    twice.
  \<^item> \<open>raining\<close>: a controller of the first layer of \<open>CONFIG\<close> in a window of 800
    by 600, after its first delayed spawn and one tick.

  The layout is the one of the style sheet, with the corner of the container at the
  corner of the viewport.
\<close>

definition fresh_host :: "int \<Rightarrow> int \<Rightarrow> host" where
  "fresh_host w h =
     \<lparr>styles = (\<lambda>e. \<lparr>style_left = [], style_top = [], style_filter = []\<rparr>),
      children = [], next_element = 0, next_handle = 1,
      entropy = (\<lambda>n. 7 * n + 42), draws = 0,
      client_width = Num w, client_height = Num h\<rparr>"

definition scenario_layer :: config where
  "scenario_layer = \<lparr>LIMIT = Num 1, BLUR = Num 0, FALL_RATE = Num 100, SWAY_RATE = Num 0\<rparr>"

definition scenario_start :: "controller \<times> host" where
  "scenario_start =
     fire (sheet_layout 0 0) (Wake 0) (new_Controller scenario_layer (fresh_host 100 100))"

definition short_window :: "controller \<times> host" where
  "short_window =
     fire (sheet_layout 0 0) (Wake 0) (new_Controller scenario_layer (fresh_host 100 90))"

definition over_limit :: "controller \<times> host" where
  "over_limit = fire (sheet_layout 0 0) (Tick 2) (start (stop (spawn scenario_start)))"

definition two_flakes :: "controller \<times> host" where
  "two_flakes = spawn (spawn (new_Controller scenario_layer (fresh_host 100 100)))"

definition raining :: "controller \<times> host" where
  "raining =
     elapse (sheet_layout 0 0) [Wake 0, Tick 1] (new_Controller (hd CONFIG) (fresh_host 800 600))"


section \<open>Facts about the encoding of positions\<close>

lemma digit_value_digit_char: "d < 10 \<Longrightarrow> digit_value (digit_char d) = Some d"
  by (simp add: digit_value_def digit_char_def Let_def)

lemma parse_digits_append:
  "parse_digits acc (xs @ ys) =
     (case parse_digits acc xs of None \<Rightarrow> None | Some a \<Rightarrow> parse_digits a ys)"
  by (induction xs arbitrary: acc) (auto split: option.splits)

lemma parse_digits_digits: "parse_digits 0 (digits n) = Some n"
proof (induction n rule: digits.induct)
  case (1 n)
  show ?case
  proof (cases "n < 10")
    case True
    then show ?thesis by (simp add: digits.simps [of n] digit_value_digit_char)
  next
    case False
    with 1 have "parse_digits 0 (digits (n div 10)) = Some (n div 10)" by simp
    with False show ?thesis
      by (simp add: digits.simps [of n] parse_digits_append digit_value_digit_char)
  qed
qed

lemma digits_nonempty: "digits n \<noteq> []"
  by (subst digits.simps) simp

lemma of_char_digit_char: "d < 10 \<Longrightarrow> (of_char (digit_char d) :: nat) = 48 + d"
  by (simp add: digit_char_def)

lemma digit_char_neq:
  assumes "d < 10"
  shows "digit_char d \<noteq> CHR ''p''" and "digit_char d \<noteq> CHR ''-''"
    and "digit_char d \<noteq> CHR ''+''"
proof -
  have k: "(of_char (digit_char d) :: nat) = 48 + d"
    using assms by (rule of_char_digit_char)
  show "digit_char d \<noteq> CHR ''p''"
  proof
    assume "digit_char d = CHR ''p''"
    then have "(of_char (digit_char d) :: nat) = of_char CHR ''p''" by simp
    with k assms show False by simp
  qed
  show "digit_char d \<noteq> CHR ''-''"
  proof
    assume "digit_char d = CHR ''-''"
    then have "(of_char (digit_char d) :: nat) = of_char CHR ''-''" by simp
    with k assms show False by simp
  qed
  show "digit_char d \<noteq> CHR ''+''"
  proof
    assume "digit_char d = CHR ''+''"
    then have "(of_char (digit_char d) :: nat) = of_char CHR ''+''" by simp
    with k assms show False by simp
  qed
qed

lemma set_digits: "c \<in> set (digits n) \<Longrightarrow> \<exists>d<10. c = digit_char d"
proof (induction n rule: digits.induct)
  case (1 n)
  show ?case
  proof (cases "n < 10")
    case True
    with 1(2) show ?thesis by (auto simp: digits.simps [of n])
  next
    case False
    with 1(2) have "c \<in> set (digits (n div 10)) \<or> c = digit_char (n mod 10)"
      by (auto simp: digits.simps [of n])
    then show ?thesis
    proof
      assume "c \<in> set (digits (n div 10))"
      with 1(1) False show ?thesis by simp
    next
      assume "c = digit_char (n mod 10)"
      moreover have "n mod 10 < 10" by simp
      ultimately show ?thesis by blast
    qed
  qed
qed

lemma replace_px_suffix: "CHR ''p'' \<notin> set s \<Longrightarrow> replace ''px'' '''' (s @ ''px'') = s"
  by (induction s) auto

lemma to_string_no_p: "CHR ''p'' \<notin> set (to_string v)"
proof (cases v)
  case NaN
  then show ?thesis by (simp add: to_string_def)
next
  case (Num n)
  have "CHR ''p'' \<notin> set (digits m)" for m
  proof
    assume "CHR ''p'' \<in> set (digits m)"
    then obtain d where d: "d < 10" "CHR ''p'' = digit_char d"
      using set_digits by blast
    from digit_char_neq(1) [OF d(1)] d(2) show False by simp
  qed
  with Num show ?thesis by (simp add: to_string_def)
qed

lemma unsigned_literal_digits: "unsigned_literal (digits m) = Num (int m)"
  by (simp add: unsigned_literal_def digits_nonempty parse_digits_digits)

lemma Number_to_string: "Number (to_string v) = v"
proof (cases v)
  case NaN
  then show ?thesis
    by (simp add: to_string_def Number_def unsigned_literal_def digit_value_def)
next
  case (Num n)
  show ?thesis
  proof (cases "n < 0")
    case True
    with Num show ?thesis by (simp add: to_string_def Number_def unsigned_literal_digits)
  next
    case False
    obtain c cs where cs: "digits (nat n) = c # cs"
      using digits_nonempty [of "nat n"] by (cases "digits (nat n)") auto
    then have "c \<in> set (digits (nat n))" by simp
    then obtain d where "d < 10" "c = digit_char d" using set_digits by blast
    then have "c \<noteq> CHR ''-''" "c \<noteq> CHR ''+''" using digit_char_neq by auto
    moreover have "unsigned_literal (c # cs) = Num n"
      using unsigned_literal_digits [of "nat n"] cs False by simp
    ultimately show ?thesis using Num False cs by (simp add: to_string_def Number_def)
  qed
qed

lemma px_decode: "Number (replace ''px'' '''' (to_string v @ ''px'')) = v"
  by (simp add: replace_px_suffix to_string_no_p Number_to_string)

lemma get_top_set_top [simp]: "get_top (set_top e v h) e' = (if e' = e then v else get_top h e')"
  by (simp add: get_top_def set_top_def px_decode)

lemma get_left_set_left [simp]:
  "get_left (set_left e v h) e' = (if e' = e then v else get_left h e')"
  by (simp add: get_left_def set_left_def px_decode)

lemma get_top_set_left [simp]: "get_top (set_left e v h) e' = get_top h e'"
  by (simp add: get_top_def set_left_def)

lemma get_left_set_top [simp]: "get_left (set_top e v h) e' = get_left h e'"
  by (simp add: get_left_def set_top_def)

lemma get_new_rainflake:
  "get_left (snd (new_rainflake x y b h)) (fst (new_rainflake x y b h)) = x"
  "get_top (snd (new_rainflake x y b h)) (fst (new_rainflake x y b h)) = y"
  by (simp_all add: new_rainflake_def Let_def get_left_def get_top_def px_decode)


section \<open>Facts about the concrete inputs\<close>

lemma two_flakes_pool: "rainflakes (fst two_flakes) = [0, 1]"
  by code_simp

lemma two_flakes_children: "children (snd two_flakes) = [0, 1]"
  by code_simp


lemma raining_state:
  "rainflakes (fst raining) = [0]" "get_left (snd raining) 0 = Num 49"
  "get_top (snd raining) 0 = Num 50" "ticks (fst raining) = [1]"
  "interval (fst raining) = Some 1" "sleepers (fst raining) = [1]" "active (fst raining)"
  by code_simp+

lemma scenario_tick_state:
  "rainflakes (fst (animate (sheet_layout 0 0) scenario_start)) = [0]"
  "next_element (snd (animate (sheet_layout 0 0) scenario_start)) = 1"
  by code_simp+


section \<open>Facts about animate and the timers\<close>

lemma animate_body_frame: "only_pool_changed (fst s) (fst (animate_body L p s))"
  by (cases s) (simp add: only_pool_changed_def Let_def split: prod.splits)

lemma indexOf_nth: "distinct xs \<Longrightarrow> i < length xs \<Longrightarrow> indexOf xs (xs ! i) = int i"
proof (induction xs arbitrary: i)
  case Nil
  then show ?case by simp
next
  case (Cons x xs)
  show ?case
  proof (cases i)
    case 0
    then show ?thesis by simp
  next
    case (Suc j)
    with Cons.prems have "distinct xs" "j < length xs" "xs ! j \<noteq> x" by auto
    with Cons.IH [of j] Suc show ?thesis by (auto simp: Let_def)
  qed
qed

lemma splice_at: "i \<le> length xs \<Longrightarrow> splice (int i) (Suc 0) xs = take i xs @ drop (Suc i) xs"
  by (simp add: splice_def Let_def)

lemma bounds_fall_cong:
  "styles h' p = styles h p \<Longrightarrow> config c' = config c \<Longrightarrow>
     bounds L (fall p (c', h')) p = bounds L (fall p (c, h)) p"
  by (simp add: bounds_def set_top_def get_top_def)

lemma out_of_bounds_cong:
  "only_pool_changed c c' \<Longrightarrow> out_of_bounds c' b = out_of_bounds c b"
  by (simp add: out_of_bounds_def only_pool_changed_def)

lemma styles_fall: "p \<noteq> q \<Longrightarrow> styles (fall q (c, h)) p = styles h p"
  by (simp add: set_top_def)

lemma spawn_effect:
  "rainflakes (fst (spawn (c, h))) = rainflakes c @ [next_element h]"
  "next_element (snd (spawn (c, h))) = Suc (next_element h)"
  "p \<noteq> next_element h \<Longrightarrow> styles (snd (spawn (c, h))) p = styles h p"
  "get_top (snd (spawn (c, h))) (next_element h) = Num 0"
  "children (snd (spawn (c, h))) = children h @ [next_element h]"
  by (simp_all add: random_times_def new_rainflake_def Let_def get_top_def px_decode
      split: prod.splits)

lemma animate_body_keep:
  assumes "\<not> out_of_bounds c (bounds L (fall q (c, h)) q)"
  shows "animate_body L q (c, h) = (c, fall q (c, h))"
  using assms by (simp add: Let_def)

lemma animate_body_recycle:
  assumes "out_of_bounds c (bounds L (fall q (c, h)) q)"
    and "distinct (rainflakes c)" and "i < length (rainflakes c)" and "q = rainflakes c ! i"
  shows "rainflakes (fst (animate_body L q (c, h)))
           = take i (rainflakes c) @ drop (Suc i) (rainflakes c) @ [next_element h]"
    and "next_element (snd (animate_body L q (c, h))) = Suc (next_element h)"
    and "p \<noteq> q \<Longrightarrow> p \<noteq> next_element h \<Longrightarrow> styles (snd (animate_body L q (c, h))) p = styles h p"
proof -
  obtain c1 h1 where r: "remove q (c, fall q (c, h)) = (c1, h1)"
    by (cases "remove q (c, fall q (c, h))")
  have c1: "rainflakes c1 = take i (rainflakes c) @ drop (Suc i) (rainflakes c)"
    using r assms(2-4) by (auto simp: indexOf_nth splice_at simp del: fall.simps)
  have h1: "next_element h1 = next_element h" "styles h1 = styles (fall q (c, h))"
    using r by (auto simp: element_remove_def set_top_def)
  have b: "animate_body L q (c, h) = spawn (c1, h1)"
    using assms(1) r by (simp add: Let_def del: fall.simps remove.simps spawn.simps)
  show "rainflakes (fst (animate_body L q (c, h)))
           = take i (rainflakes c) @ drop (Suc i) (rainflakes c) @ [next_element h]"
    using b c1 h1 by (simp add: spawn_effect del: spawn.simps)
  show "next_element (snd (animate_body L q (c, h))) = Suc (next_element h)"
    using b h1 by (simp add: spawn_effect del: spawn.simps)
  show "p \<noteq> q \<Longrightarrow> p \<noteq> next_element h \<Longrightarrow> styles (snd (animate_body L q (c, h))) p = styles h p"
    using b h1 by (simp add: spawn_effect styles_fall del: spawn.simps fall.simps)
qed


lemma nth_not_in_rest:
  assumes "distinct xs" and "i < length xs"
  shows "xs ! i \<notin> set (take i xs)" and "xs ! i \<notin> set (drop (Suc i) xs)"
proof -
  have "distinct (take i xs @ xs ! i # drop (Suc i) xs)"
    using assms id_take_nth_drop [OF assms(2)] by simp
  then show "xs ! i \<notin> set (take i xs)" and "xs ! i \<notin> set (drop (Suc i) xs)"
    by auto
qed

lemma pool_fresh_animate_body:
  assumes "pool_fresh (c, h)" and "i < length (rainflakes c)"
  shows "pool_fresh (animate_body L (rainflakes c ! i) (c, h))"
proof (cases "out_of_bounds c (bounds L (fall (rainflakes c ! i) (c, h)) (rainflakes c ! i))")
  case False
  with assms show ?thesis
    by (simp add: animate_body_keep pool_fresh_def set_top_def del: animate_body.simps)
next
  case True
  from assms have d: "distinct (rainflakes c)"
    and f: "\<forall>q \<in> set (rainflakes c). q < next_element h"
    by (simp_all add: pool_fresh_def list_all_iff)
  have m: "q < next_element h \<and> q < Suc (next_element h)"
    if "q \<in> set (take i (rainflakes c)) \<or> q \<in> set (drop (Suc i) (rainflakes c))" for q
  proof -
    from that have "q \<in> set (rainflakes c)" by (auto dest: in_set_takeD in_set_dropD)
    with f show ?thesis by auto
  qed
  have "distinct (take i (rainflakes c) @ drop (Suc i) (rainflakes c))"
    using d id_take_nth_drop [OF assms(2)] by (metis distinct.simps(2) distinct_append
        Int_insert_right disjoint_insert(1) list.simps(15))
  with m show ?thesis
    using animate_body_recycle(1,2) [OF True d assms(2) refl]
    by (fastforce simp: pool_fresh_def list_all_iff simp del: animate_body.simps)
qed

lemma animate_from_visits:
  assumes "pool_fresh s" and "i \<le> length (rainflakes (fst s))"
  shows "take i (rainflakes (fst (animate_from L i s))) = take i (rainflakes (fst s))
     \<and> (\<forall>p \<in> set (drop i (rainflakes (fst s))).
           p \<notin> set (rainflakes (fst (animate_from L i s))) \<longrightarrow>
             out_of_bounds (fst s) (bounds L (fall p s) p))"
  using assms
proof (induction L i s rule: animate_from.induct)
  case (1 L i s)
  obtain c h where s: "s = (c, h)" by (cases s)
  show ?case
  proof (cases "i < length (rainflakes c)")
    case False
    with "1.prems" s have "i = length (rainflakes c)" by simp
    then show ?thesis using s by (subst (1 2) animate_from.simps) simp
  next
    case True
    define q where "q = rainflakes c ! i"
    define s1 where "s1 = animate_body L q s"
    define res where "res = rainflakes (fst (animate_from L (i + 1) s1))"
    have unf: "rainflakes (fst (animate_from L i s)) = res"
      using True s by (subst animate_from.simps) (simp add: s1_def q_def res_def)
    have d: "distinct (rainflakes c)" and f: "\<forall>p \<in> set (rainflakes c). p < next_element h"
      using "1.prems"(1) s by (simp_all add: pool_fresh_def list_all_iff)
    have fr: "only_pool_changed c (fst s1)"
      using animate_body_frame [of s L q] s by (simp add: s1_def)
    have pf1: "pool_fresh s1"
      using pool_fresh_animate_body [of c h i L] "1.prems"(1) True s by (simp add: s1_def q_def)
    have len1: "length (rainflakes (fst s1)) = length (rainflakes c)"
      using length_animate_body [of q s L] True s by (simp add: s1_def q_def)
    have ih: "take (i + 1) res = take (i + 1) (rainflakes (fst s1))
       \<and> (\<forall>p \<in> set (drop (i + 1) (rainflakes (fst s1))).
             p \<notin> set res \<longrightarrow> out_of_bounds (fst s1) (bounds L (fall p s1) p))"
      using "1.IH" [of] True s pf1 len1 by (simp add: s1_def q_def res_def)
    have dq: "drop i (rainflakes c) = q # drop (Suc i) (rainflakes c)"
      using True by (simp add: q_def Cons_nth_drop_Suc)
    have qrest: "q \<notin> set (drop (Suc i) (rainflakes c))" "q \<notin> set (take i (rainflakes c))"
      using nth_not_in_rest [OF d True] by (simp_all add: q_def)
    have pre: "set (take (i + 1) (rainflakes (fst s1))) \<subseteq> set res"
      using ih by (metis set_take_subset)
    have conv: "out_of_bounds (fst s1) (bounds L (fall p s1) p) = out_of_bounds c (bounds L (fall p s) p)"
      if "styles (snd s1) p = styles h p" for p
    proof -
      have "bounds L (fall p (fst s1, snd s1)) p = bounds L (fall p (c, h)) p"
        using that fr by (intro bounds_fall_cong) (simp_all add: only_pool_changed_def)
      then show ?thesis using out_of_bounds_cong [OF fr] s by simp
    qed
    show ?thesis
    proof (cases "out_of_bounds c (bounds L (fall q (c, h)) q)")
      case False
      then have s1: "s1 = (c, fall q (c, h))"
        using s by (simp add: s1_def animate_body_keep del: animate_body.simps)
      have t: "take i res = take i (rainflakes c)"
      proof -
        have "take i res = take i (take (i + 1) res)" by simp
        also have "\<dots> = take i (take (i + 1) (rainflakes c))" using ih s1 by simp
        finally show ?thesis by simp
      qed
      have "q \<in> set (take (i + 1) (rainflakes c))"
        using True by (simp add: q_def take_Suc_conv_app_nth)
      then have qin: "q \<in> set res" using pre s1 by auto
      have "out_of_bounds c (bounds L (fall p s) p)"
        if "p \<in> set (drop (Suc i) (rainflakes c))" "p \<notin> set res" for p
      proof -
        have "p \<noteq> q" using that(1) qrest by auto
        then have "styles (snd s1) p = styles h p" using s1 by (simp add: set_top_def)
        from conv [OF this] ih that s1 show ?thesis by simp
      qed
      with t qin show ?thesis using s unf dq by auto
    next
      case oob: True
      let ?e = "next_element h"
      have p1: "rainflakes (fst s1) = take i (rainflakes c) @ drop (Suc i) (rainflakes c) @ [?e]"
        using animate_body_recycle(1) [OF oob d True q_def] s by (simp add: s1_def)
      have st1: "styles (snd s1) p = styles h p" if "p \<noteq> q" "p \<noteq> ?e" for p
        using animate_body_recycle(3) [OF oob d True q_def that] s by (simp add: s1_def)
      have li: "length (take i (rainflakes c)) = i" using True by simp
      have t: "take i res = take i (rainflakes c)"
      proof -
        have "take i res = take i (take (i + 1) res)" by simp
        also have "\<dots> = take i (take (i + 1) (rainflakes (fst s1)))" using ih by simp
        also have "\<dots> = take i (rainflakes (fst s1))" by simp
        also have "\<dots> = take i (rainflakes c)" using p1 li by simp
        finally show ?thesis .
      qed
      have "out_of_bounds c (bounds L (fall p s) p)"
        if "p \<in> set (drop (Suc i) (rainflakes c))" "p \<notin> set res" for p
      proof (cases "drop (Suc i) (rainflakes c)")
        case Nil
        with that show ?thesis by simp
      next
        case (Cons r rest)
        have t1: "take (i + 1) (rainflakes (fst s1)) = take i (rainflakes c) @ [r]"
          using p1 li Cons by simp
        have d1: "drop (i + 1) (rainflakes (fst s1)) = rest @ [?e]"
          using p1 li Cons by simp
        have "r \<in> set res" using pre t1 by auto
        with that Cons have "p \<in> set rest" by auto
        then have pd: "p \<in> set (drop (i + 1) (rainflakes (fst s1)))" using d1 by simp
        have "p \<in> set (rainflakes c)" using that(1) by (auto dest: in_set_dropD)
        then have "p \<noteq> ?e" using f by auto
        moreover have "p \<noteq> q" using that(1) qrest by auto
        ultimately have "styles (snd s1) p = styles h p" using st1 by simp
        from conv [OF this] ih pd that(2) show ?thesis by simp
      qed
      with t oob show ?thesis using s unf dq by auto
    qed
  qed
qed

lemma animate_from_frame: "only_pool_changed (fst s) (fst (animate_from L i s))"
proof (induction L i s rule: animate_from.induct)
  case (1 L i s)
  show ?case
  proof (cases "i < length (rainflakes (fst s))")
    case True
    from 1 [OF True] animate_body_frame [of s L "rainflakes (fst s) ! i"]
    show ?thesis
      by (subst animate_from.simps) (simp add: True only_pool_changed_def)
  next
    case False
    then show ?thesis by (subst animate_from.simps) (simp add: only_pool_changed_def)
  qed
qed

lemma length_animate_from:
  "length (rainflakes (fst (animate_from L i s))) = length (rainflakes (fst s))"
proof (induction L i s rule: animate_from.induct)
  case (1 L i s)
  show ?case
  proof (cases "i < length (rainflakes (fst s))")
    case True
    then have "rainflakes (fst s) ! i \<in> set (rainflakes (fst s))" by simp
    from length_animate_body [OF this, of L] 1 [OF True]
    show ?thesis by (subst animate_from.simps) (simp add: True)
  next
    case False
    then show ?thesis by (subst animate_from.simps) simp
  qed
qed

lemma animate_frame: "only_pool_changed (fst s) (fst (animate L s))"
  by (simp add: animate_def animate_from_frame)

lemma length_animate: "length (rainflakes (fst (animate L s))) = length (rainflakes (fst s))"
  by (simp add: animate_def length_animate_from)

lemma sum_list_without:
  "k < length xs \<Longrightarrow>
     sum_list (map f (take k xs @ drop (Suc k) xs)) + f (xs ! k) = sum_list (map (f :: nat \<Rightarrow> nat) xs)"
proof -
  assume k: "k < length xs"
  have "sum_list (map f xs) = sum_list (map f (take k xs @ xs ! k # drop (Suc k) xs))"
    using id_take_nth_drop [OF k] by simp
  then show ?thesis by simp
qed

lemma fire_budget:
  assumes "LIMIT (config (fst s)) = Num l" and "sleepers_below l (fst s)"
  shows "LIMIT (config (fst (fire L ev s))) = Num l \<and> sleepers_below l (fst (fire L ev s))
     \<and> length (rainflakes (fst (fire L ev s))) + backlog l (fst (fire L ev s))
         \<le> length (rainflakes (fst s)) + backlog l (fst s)"
proof -
  obtain c h where s: "s = (c, h)" by (cases s)
  show ?thesis
  proof (cases ev)
    case (Tick t)
    from animate_frame [of "(c, h)" L] length_animate [of L "(c, h)"] assms s Tick
    show ?thesis by (simp add: only_pool_changed_def sleepers_below_def backlog_def)
  next
    case (Wake k)
    show ?thesis
    proof (cases "k < length (sleepers c)")
      case False
      with assms s Wake show ?thesis by simp
    next
      case True
      define i where "i = sleepers c ! k"
      define c0 where "c0 = c\<lparr>sleepers := take k (sleepers c) @ drop (Suc k) (sleepers c)\<rparr>"
      have i: "int i < l"
        using assms(2) True s by (simp add: sleepers_below_def list_all_length i_def)
      have b0: "backlog l c0 + nat (l - int i) = backlog l c"
        using sum_list_without [OF True, of "\<lambda>i. nat (l - int i)"]
        by (simp add: backlog_def c0_def i_def)
      have s0: "sleepers_below l c0"
        using assms(2) s
        by (auto simp: sleepers_below_def c0_def list_all_iff dest: in_set_takeD in_set_dropD)
      have l0: "LIMIT (config c0) = Num l" "rainflakes c0 = rainflakes c"
        using assms(1) s by (simp_all add: c0_def)
      have f: "fire L ev s = generate_resume i (c0, h)"
        using True s Wake by (simp add: i_def c0_def)
      show ?thesis
      proof (cases "active c0")
        case False
        with f s0 l0 b0 s show ?thesis by simp
      next
        case True
        obtain c1 h1 where sp: "spawn (c0, h) = (c1, h1)" by (cases "spawn (c0, h)")
        have c1: "LIMIT (config c1) = Num l" "sleepers c1 = sleepers c0"
          "length (rainflakes c1) = Suc (length (rainflakes c))"
          using sp l0 length_spawn [of "(c0, h)"]
          by (auto split: prod.splits)
        then have s1: "sleepers_below l c1" "backlog l c1 = backlog l c0"
          using s0 by (simp_all add: sleepers_below_def backlog_def)
        have r: "fire L ev s = generate_loop (i + 1) (c1, h1)"
          using f True sp by simp
        show ?thesis
        proof (cases "int (i + 1) < l")
          case True
          with r c1 s1 b0 i s show ?thesis
            by (simp add: sleepers_below_def backlog_def)
        next
          case False
          with r c1 s1 b0 i s show ?thesis
            by (simp add: sleepers_below_def backlog_def)
        qed
      qed
    qed
  qed
qed

lemma elapse_budget:
  assumes "LIMIT (config (fst s)) = Num l" and "sleepers_below l (fst s)"
  shows "length (rainflakes (fst (elapse L evs s))) + backlog l (fst (elapse L evs s))
     \<le> length (rainflakes (fst s)) + backlog l (fst s)"
  using assms
proof (induction evs arbitrary: s)
  case Nil
  then show ?case by (simp add: elapse_def)
next
  case (Cons ev evs)
  from fire_budget [OF Cons.prems, of L ev]
  have a: "LIMIT (config (fst (fire L ev s))) = Num l" "sleepers_below l (fst (fire L ev s))"
    and b: "length (rainflakes (fst (fire L ev s))) + backlog l (fst (fire L ev s))
         \<le> length (rainflakes (fst s)) + backlog l (fst s)"
    by simp_all
  from Cons.IH [OF a] b show ?case by (simp add: elapse_def)
qed


section \<open>What holds in every reachable state\<close>

lemma pool_fresh_animate_from:
  "pool_fresh s \<Longrightarrow> pool_fresh (animate_from L i s)"
proof (induction L i s rule: animate_from.induct)
  case (1 L i s)
  show ?case
  proof (cases "i < length (rainflakes (fst s))")
    case True
    from pool_fresh_animate_body [of "fst s" "snd s" i L] "1.prems" True
    have "pool_fresh (animate_body L (rainflakes (fst s) ! i) s)" by simp
    from "1.IH" [OF True this] True show ?thesis by (subst animate_from.simps) simp
  next
    case False
    with "1.prems" show ?thesis by (subst animate_from.simps) simp
  qed
qed

lemma pool_fresh_spawn: "pool_fresh s \<Longrightarrow> pool_fresh (spawn s)"
  by (cases s) (fastforce simp: pool_fresh_def list_all_iff spawn_effect simp del: spawn.simps)

lemma pool_fresh_generate_loop: "pool_fresh s \<Longrightarrow> pool_fresh (generate_loop i s)"
  by (cases s) (simp add: pool_fresh_def)

lemma fold_resize_body_frame:
  "next_element (fold (resize_body w hg c) ps h) = next_element h"
  by (induction ps arbitrary: h) (simp_all add: resize_body_def Let_def set_top_def set_left_def)

lemma invariant_step:
  assumes "pool_fresh s" and "ticks_owned (fst s)"
  shows "pool_fresh (start s) \<and> ticks_owned (fst (start s))"
    and "pool_fresh (stop s) \<and> ticks_owned (fst (stop s))"
    and "pool_fresh (spawn s) \<and> ticks_owned (fst (spawn s))"
    and "pool_fresh (clear s) \<and> ticks_owned (fst (clear s))"
    and "pool_fresh (generate s) \<and> ticks_owned (fst (generate s))"
    and "pool_fresh (animate L s) \<and> ticks_owned (fst (animate L s))"
    and "pool_fresh (resize w hg s) \<and> ticks_owned (fst (resize w hg s))"
proof -
  obtain c h where s: "s = (c, h)" by (cases s)
  show "pool_fresh (start s) \<and> ticks_owned (fst (start s))"
    using assms s by (auto simp: pool_fresh_def ticks_owned_def)
  show "pool_fresh (stop s) \<and> ticks_owned (fst (stop s))"
    using assms s by (cases "interval c") (auto simp: pool_fresh_def ticks_owned_def filter_empty_conv)
  show "pool_fresh (spawn s) \<and> ticks_owned (fst (spawn s))"
    using assms pool_fresh_spawn [of s] s by (auto simp: ticks_owned_def split: prod.splits)
  show "pool_fresh (clear s) \<and> ticks_owned (fst (clear s))"
    using assms s by (simp add: pool_fresh_def ticks_owned_def)
  show "pool_fresh (generate s) \<and> ticks_owned (fst (generate s))"
    using assms s by (auto simp: pool_fresh_def ticks_owned_def)
  show "pool_fresh (animate L s) \<and> ticks_owned (fst (animate L s))"
    using assms pool_fresh_animate_from [of s L 0] animate_frame [of s L]
    by (simp add: animate_def ticks_owned_def only_pool_changed_def)
  show "pool_fresh (resize w hg s) \<and> ticks_owned (fst (resize w hg s))"
    using assms s by (simp add: pool_fresh_def ticks_owned_def fold_resize_body_frame)
qed

lemma invariant_fire:
  assumes "pool_fresh s" and "ticks_owned (fst s)"
  shows "pool_fresh (fire L ev s) \<and> ticks_owned (fst (fire L ev s))"
proof -
  obtain c h where s: "s = (c, h)" by (cases s)
  show ?thesis
  proof (cases ev)
    case (Tick t)
    with invariant_step(6) [OF assms, of L] assms s show ?thesis by simp
  next
    case (Wake k)
    define c0 where "c0 = c\<lparr>sleepers := take k (sleepers c) @ drop (Suc k) (sleepers c)\<rparr>"
    have a: "pool_fresh (c0, h)" "ticks_owned c0"
      using assms s by (simp_all add: c0_def pool_fresh_def ticks_owned_def)
    have sp: "pool_fresh (spawn (c0, h))" "ticks_owned (fst (spawn (c0, h)))"
      using invariant_step(3) [of "(c0, h)"] a by simp_all
    have "pool_fresh (generate_loop i (spawn (c0, h)))
        \<and> ticks_owned (fst (generate_loop i (spawn (c0, h))))" for i
      using sp pool_fresh_generate_loop [of "spawn (c0, h)" i]
      by (cases "spawn (c0, h)") (auto simp: ticks_owned_def)
    with a assms s Wake show ?thesis
      by (simp add: c0_def del: spawn.simps generate_loop.simps)
  qed
qed

text \<open>
  In every reachable state the pool holds each particle once, every pooled particle was
  created, and the live intervals are at most the one \<open>this.interval\<close> holds: the
  hypotheses of the theorems below are not restrictions on the script.
\<close>

lemma reachable_invariant:
  "reachable L s \<Longrightarrow> pool_fresh s \<and> ticks_owned (fst s)"
proof (induction rule: reachable.induct)
  case (constructed layer h)
  show ?case
    by (auto simp: new_Controller_def Controller_fields_def pool_fresh_def ticks_owned_def)
next
  case (elsewhere c h h')
  then show ?case by (auto simp: pool_fresh_def list_all_iff)
qed (simp_all add: invariant_step invariant_fire)

lemma reachable_hypotheses:
  assumes "reachable L (c, h)"
  shows "distinct (rainflakes c)" and "\<forall>q \<in> set (rainflakes c). q < next_element h"
    and "set (ticks c) \<subseteq> set_option (interval c)"
  using reachable_invariant [OF assms]
  by (simp_all add: pool_fresh_def ticks_owned_def list_all_iff)


section \<open>The pool and the limit\<close>

text \<open>
  \<open>spawn\<close> does not look at the limit, and the page may call it. From the scenario's
  controller with its one particle, the page calls \<open>spawn\<close>, \<open>stop\<close> and
  \<open>start\<close>: \<open>generate\<close> starts from a pool of two, returns at once, the interval fires,
  and the pool holds two particles under a limit of one. This refutes claim C1 as it is
  stated, for any initial size of the pool.
\<close>

theorem pool_exceeds_limit:
  "LIMIT (config (fst over_limit)) = Num 1
   \<and> sleepers (fst over_limit) = []
   \<and> length (rainflakes (fst over_limit)) = 2
   \<and> \<not> int (length (rainflakes (fst over_limit))) \<le> 1"
  by code_simp

text \<open>
  A second way over the limit, which the amended claim leaves aside: \<open>stop\<close> does not
  end a suspended \<open>generate\<close>, so a \<open>start\<close> that follows before its timer fires
  has two calls of \<open>generate\<close> running, and each of them spawns up to the limit.
\<close>

lemma restart_overshoots:
  "sleepers (fst (start (stop (new_Controller scenario_layer (fresh_host 100 100))))) = [0, 0]
   \<and> length (rainflakes (fst (elapse (sheet_layout 0 0) [Wake 0, Wake 0]
        (start (stop (new_Controller scenario_layer (fresh_host 100 100))))))) = 2"
  by code_simp

text \<open>
  Claim C1, amended. Let \<open>generate\<close> be called, directly or by \<open>start\<close> on a stopped
  controller, while no other call of \<open>generate\<close> is suspended and the pool holds
  \<open>n\<close> particles. Then after any sequence of timer firings, in any interleaving of the
  delayed spawns with the ticks of \<open>animate\<close>, the pool holds at most
  \<open>max n LIMIT\<close> particles: at most \<open>LIMIT\<close> when it started with at most
  \<open>LIMIT\<close>, and never more than it started with otherwise.
\<close>

theorem pool_bounded:
  assumes "LIMIT (config c) = Num l" and "sleepers c = []"
  shows "int (length (rainflakes (fst (elapse L evs (generate (c, h))))))
           \<le> max (int (length (rainflakes c))) l
     \<and> (\<not> active c \<longrightarrow>
           int (length (rainflakes (fst (elapse L evs (start (c, h))))))
             \<le> max (int (length (rainflakes c))) l)"
proof -
  have g: "LIMIT (config (fst (generate (c, h)))) = Num l"
    "sleepers_below l (fst (generate (c, h)))"
    "int (length (rainflakes (fst (generate (c, h))))) + int (backlog l (fst (generate (c, h))))
       = max (int (length (rainflakes c))) l"
    using assms by (auto simp: sleepers_below_def backlog_def)
  from elapse_budget [OF g(1,2), of L evs] g(3)
  have a: "int (length (rainflakes (fst (elapse L evs (generate (c, h))))))
           \<le> max (int (length (rainflakes c))) l"
    by linarith
  have b: "int (length (rainflakes (fst (elapse L evs (start (c, h))))))
             \<le> max (int (length (rainflakes c))) l" if "\<not> active c"
  proof -
    have s: "LIMIT (config (fst (start (c, h)))) = Num l"
      "sleepers_below l (fst (start (c, h)))"
      "int (length (rainflakes (fst (start (c, h))))) + int (backlog l (fst (start (c, h))))
         = max (int (length (rainflakes c))) l"
      using assms that by (auto simp: sleepers_below_def backlog_def)
    from elapse_budget [OF s(1,2), of L evs] s(3) show ?thesis by linarith
  qed
  from a b show ?thesis by simp
qed

theorem pool_bounded_witness:
  "LIMIT (config (Controller_fields (hd CONFIG) (fresh_host 800 600))) = Num 30
   \<and> sleepers (Controller_fields (hd CONFIG) (fresh_host 800 600)) = []
   \<and> \<not> active (Controller_fields (hd CONFIG) (fresh_host 800 600))
   \<and> int (length (rainflakes (fst (elapse (sheet_layout 0 0) [Wake 0, Tick 1, Wake 0, Tick 1]
         (new_Controller (hd CONFIG) (fresh_host 800 600)))))) \<le> 30"
  using pool_bounded [where c = "Controller_fields (hd CONFIG) (fresh_host 800 600)" and l = 30
      and h = "fresh_host 800 600" and L = "sheet_layout 0 0"
      and evs = "[Wake 0, Tick 1, Wake 0, Tick 1]"]
  by (simp add: Controller_fields_def CONFIG_def new_Controller_def)


section \<open>The test of animate\<close>

text \<open>
  In a window 90 high, the scenario's particle stands at \<open>y = 100\<close> after its first
  tick. The bottom edge of its box, 130, exceeds the height of the viewport plus the height
  of the box, 120: by the words of claim C2 it is out of bounds. The code compares
  \<open>bounds.y\<close>, the top edge, 100, with 120, and keeps the particle.
\<close>

theorem animate_keeps_past_the_spec_bound:
  "spec_out_of_bounds (fst short_window) (bounds (sheet_layout 0 0) (fall 0 short_window) 0)
   \<and> \<not> out_of_bounds (fst short_window) (bounds (sheet_layout 0 0) (fall 0 short_window) 0)
   \<and> rainflakes (fst short_window) = [0]
   \<and> rainflakes (fst (animate (sheet_layout 0 0) short_window)) = [0]
   \<and> get_top (snd (animate (sheet_layout 0 0) short_window)) 0 = Num 100"
  by code_simp

text \<open>
  Claim C2, amended. \<open>animate\<close> classifies the particle it visits, after moving it down
  by the fall rate, as out of bounds exactly when \<open>x\<close> of its bounding box, the left
  edge, exceeds the width of the viewport plus the width of the box, or \<open>y\<close>, the top
  edge, exceeds the height of the viewport plus the height of the box. The visit removes
  the particle exactly when it is so classified; a particle that a tick removes from the
  pool satisfies the condition; and every removed particle is replaced, the tick leaving
  the size of the pool as it was.
\<close>

theorem animate_recycles:
  assumes "distinct (rainflakes c)" and "\<forall>q \<in> set (rainflakes c). q < next_element h"
    and "p \<in> set (rainflakes c)"
  shows "(p \<notin> set (rainflakes (fst (animate_body L p (c, h))))
            \<longleftrightarrow> out_of_bounds c (bounds L (fall p (c, h)) p))
     \<and> (out_of_bounds c (bounds L (fall p (c, h)) p)
            \<longleftrightarrow> jgt (rect_x (bounds L (fall p (c, h)) p))
                     (jadd (document_width c) (rect_width (bounds L (fall p (c, h)) p)))
                 \<or> jgt (rect_y (bounds L (fall p (c, h)) p))
                     (jadd (document_height c) (rect_height (bounds L (fall p (c, h)) p))))
     \<and> (p \<notin> set (rainflakes (fst (animate L (c, h))))
            \<longrightarrow> out_of_bounds c (bounds L (fall p (c, h)) p))
     \<and> length (rainflakes (fst (animate L (c, h)))) = length (rainflakes c)"
proof -
  from assms(3) obtain i where i: "i < length (rainflakes c)" "p = rainflakes c ! i"
    by (auto simp: in_set_conv_nth)
  have one: "p \<notin> set (rainflakes (fst (animate_body L p (c, h))))
            \<longleftrightarrow> out_of_bounds c (bounds L (fall p (c, h)) p)"
  proof (cases "out_of_bounds c (bounds L (fall p (c, h)) p)")
    case False
    with assms(3) show ?thesis by (simp add: animate_body_keep del: animate_body.simps)
  next
    case True
    have "p \<noteq> next_element h" using assms(2,3) by auto
    with True nth_not_in_rest [OF assms(1) i(1)] i(2)
      animate_body_recycle(1) [OF True assms(1) i]
    show ?thesis by simp
  qed
  have fresh: "pool_fresh (c, h)"
    using assms(1,2) by (simp add: pool_fresh_def list_all_iff)
  from animate_from_visits [OF fresh, of 0 L] assms(3)
  have only: "p \<notin> set (rainflakes (fst (animate L (c, h))))
            \<longrightarrow> out_of_bounds c (bounds L (fall p (c, h)) p)"
    by (simp add: animate_def del: fall.simps)
  from one only length_animate [of L "(c, h)"] show ?thesis
    by (simp add: out_of_bounds_def del: fall.simps animate_body.simps)
qed

theorem animate_recycles_witness:
  "distinct (rainflakes (fst (animate (sheet_layout 0 0) scenario_start)))
   \<and> 0 < next_element (snd (animate (sheet_layout 0 0) scenario_start))
   \<and> 0 \<in> set (rainflakes (fst (animate (sheet_layout 0 0) scenario_start)))
   \<and> out_of_bounds (fst (animate (sheet_layout 0 0) scenario_start))
        (bounds (sheet_layout 0 0) (fall 0 (animate (sheet_layout 0 0) scenario_start)) 0)
   \<and> 0 \<notin> set (rainflakes (fst (animate (sheet_layout 0 0)
        (animate (sheet_layout 0 0) scenario_start))))
   \<and> length (rainflakes (fst (animate (sheet_layout 0 0)
        (animate (sheet_layout 0 0) scenario_start)))) = 1"
proof -
  have o: "out_of_bounds (fst (animate (sheet_layout 0 0) scenario_start))
        (bounds (sheet_layout 0 0) (fall 0 (animate (sheet_layout 0 0) scenario_start)) 0)"
    by code_simp
  have n: "0 \<notin> set (rainflakes (fst (animate (sheet_layout 0 0)
        (animate (sheet_layout 0 0) scenario_start))))"
    by code_simp
  from animate_recycles [where c = "fst (animate (sheet_layout 0 0) scenario_start)"
      and h = "snd (animate (sheet_layout 0 0) scenario_start)" and p = 0
      and L = "sheet_layout 0 0"] o n scenario_tick_state
  show ?thesis by simp
qed


section \<open>The scenario\<close>

text \<open>
  The scenario of claim C3: limit 1, fall rate 100, a viewport of 100 by 100, one particle
  at \<open>y = 0\<close>. After one tick the particle is at \<open>y = 100\<close>, and it is still the
  particle of the pool, attached: 100 does not exceed 100 plus the height of the box,
  whether the top edge is compared, as the code does, or the bottom edge, as the
  specification says. It was not recycled and its \<open>y\<close> is not 0.
\<close>

theorem scenario_first_tick_keeps_particle:
  "rainflakes (fst scenario_start) = [0]
   \<and> get_top (snd scenario_start) 0 = Num 0
   \<and> \<not> out_of_bounds (fst scenario_start) (bounds (sheet_layout 0 0) (fall 0 scenario_start) 0)
   \<and> \<not> spec_out_of_bounds (fst scenario_start)
         (bounds (sheet_layout 0 0) (fall 0 scenario_start) 0)
   \<and> rainflakes (fst (animate (sheet_layout 0 0) scenario_start)) = [0]
   \<and> get_top (snd (animate (sheet_layout 0 0) scenario_start)) 0 = Num 100
   \<and> get_top (snd (animate (sheet_layout 0 0) scenario_start)) 0 \<noteq> Num 0
   \<and> 0 \<in> set (children (snd (animate (sheet_layout 0 0) scenario_start)))"
  by code_simp

text \<open>
  The same holds when the container lies 20 below the top of the viewport, where the
  \<open>top: 20\<close> of the style sheet would put it: 120 does not exceed 130.
\<close>

lemma scenario_first_tick_container_lower:
  "rainflakes (fst (animate (sheet_layout 0 20) scenario_start)) = [0]
   \<and> get_top (snd (animate (sheet_layout 0 20) scenario_start)) 0 = Num 100"
  by code_simp

text \<open>
  Claim C3, amended. In that scenario, after a single tick the particle is at
  \<open>y = 100\<close> and stays in the pool, whose size is 1. The second tick moves it to
  \<open>y = 200\<close>, which exceeds 100 plus the 30 of the box: within that tick the particle
  is removed and detached and a new one is spawned, so the size of the pool is still 1 and
  the \<open>y\<close> of the particle it holds is 0.
\<close>

theorem scenario_two_ticks:
  "rainflakes (fst (animate (sheet_layout 0 0) scenario_start)) = [0]
   \<and> get_top (snd (animate (sheet_layout 0 0) scenario_start)) 0 = Num 100
   \<and> get_top (fall 0 (animate (sheet_layout 0 0) scenario_start)) 0 = Num 200
   \<and> rainflakes (fst (animate (sheet_layout 0 0) (animate (sheet_layout 0 0) scenario_start)))
        = [1]
   \<and> get_top (snd (animate (sheet_layout 0 0) (animate (sheet_layout 0 0) scenario_start))) 1
        = Num 0
   \<and> children (snd (animate (sheet_layout 0 0) (animate (sheet_layout 0 0) scenario_start)))
        = [1]"
  by code_simp


section \<open>resize\<close>







section \<open>stop, and time passing\<close>

lemma stop_state:
  assumes "set (ticks c) \<subseteq> set_option (interval c)"
  shows "\<not> active (fst (stop (c, h))) \<and> ticks (fst (stop (c, h))) = []
     \<and> rainflakes (fst (stop (c, h))) = rainflakes c \<and> snd (stop (c, h)) = h"
  using assms by (cases "interval c") (auto simp: filter_empty_conv)

lemma fire_stopped:
  assumes "\<not> active (fst s)" and "ticks (fst s) = []"
  shows "\<not> active (fst (fire L ev s)) \<and> ticks (fst (fire L ev s)) = []
     \<and> rainflakes (fst (fire L ev s)) = rainflakes (fst s) \<and> snd (fire L ev s) = snd s"
  using assms by (cases s; cases ev) auto

lemma elapse_stopped:
  assumes "\<not> active (fst s)" and "ticks (fst s) = []"
  shows "rainflakes (fst (elapse L evs s)) = rainflakes (fst s) \<and> snd (elapse L evs s) = snd s"
  using assms
proof (induction evs arbitrary: s)
  case Nil
  then show ?case by (simp add: elapse_def)
next
  case (Cons ev evs)
  from fire_stopped [OF Cons.prems, of L ev] Cons.IH [of "fire L ev s"]
  show ?case by (simp add: elapse_def)
qed

text \<open>
  Claim C5. On a controller whose live intervals are at most the one \<open>this.interval\<close>
  holds (which is so in every state the script reaches, see \<open>reachable_invariant\<close>),
  after \<open>stop\<close> no sequence of timer firings changes the pool or the host: no interval
  is registered any more, so \<open>animate\<close> does not run, and a suspended \<open>generate\<close>
  that wakes up finds \<open>active\<close> false and returns before it spawns. The host holds the
  style of every element, hence every position, and the children of the container.
\<close>

theorem stop_then_time_changes_nothing:
  assumes "set (ticks c) \<subseteq> set_option (interval c)"
  shows "ticks (fst (stop (c, h))) = []
     \<and> rainflakes (fst (elapse L evs (stop (c, h)))) = rainflakes c
     \<and> snd (elapse L evs (stop (c, h))) = h"
  using elapse_stopped [of "stop (c, h)" L evs] stop_state [OF assms, of h]
  by simp

theorem stop_then_time_changes_nothing_witness:
  "set (ticks (fst raining)) \<subseteq> set_option (interval (fst raining))
   \<and> ticks (fst (stop raining)) = []
   \<and> rainflakes (fst (elapse (sheet_layout 0 0) [Tick 1, Wake 0, Tick 1] (stop raining))) = [0]
   \<and> get_top (snd (elapse (sheet_layout 0 0) [Tick 1, Wake 0, Tick 1] (stop raining))) 0 = Num 50
   \<and> get_left (snd (elapse (sheet_layout 0 0) [Tick 1, Wake 0, Tick 1] (stop raining))) 0 = Num 49"
  using stop_then_time_changes_nothing
    [where c = "fst raining" and h = "snd raining" and L = "sheet_layout 0 0"
       and evs = "[Tick 1, Wake 0, Tick 1]"]
    raining_state
  by simp


section \<open>start, twice\<close>

text \<open>
  Claim C6. A second \<open>start\<close> right after a first one changes nothing, because the
  first one left the controller active. Hence a controller that was stopped, with no
  live interval and no suspended \<open>generate\<close>, has after two calls exactly one interval
  registered, the one \<open>this.interval\<close> holds, and the one call of \<open>generate\<close> of
  the first \<open>start\<close>: suspended at the counter it started from when the pool is below
  the limit, and already returned otherwise.
\<close>

theorem start_twice:
  "start (start s) = start s
   \<and> (\<not> active (fst s) \<and> ticks (fst s) = [] \<and> sleepers (fst s) = [] \<longrightarrow>
        ticks (fst (start (start s))) = [next_handle (snd s)]
        \<and> interval (fst (start (start s))) = Some (next_handle (snd s))
        \<and> sleepers (fst (start (start s))) =
            (if jlt (Num (int (length (rainflakes (fst s))))) (LIMIT (config (fst s)))
             then [length (rainflakes (fst s))] else []))"
  by (cases s) (auto split: prod.splits if_splits)

theorem start_twice_witness:
  "\<not> active (Controller_fields scenario_layer (fresh_host 100 100))
   \<and> ticks (Controller_fields scenario_layer (fresh_host 100 100)) = []
   \<and> sleepers (Controller_fields scenario_layer (fresh_host 100 100)) = []
   \<and> start (start (Controller_fields scenario_layer (fresh_host 100 100), fresh_host 100 100))
     = start (Controller_fields scenario_layer (fresh_host 100 100), fresh_host 100 100)
   \<and> ticks (fst (start (start
        (Controller_fields scenario_layer (fresh_host 100 100), fresh_host 100 100)))) = [1]
   \<and> sleepers (fst (start (start
        (Controller_fields scenario_layer (fresh_host 100 100), fresh_host 100 100)))) = [0]"
  using start_twice [of "(Controller_fields scenario_layer (fresh_host 100 100), fresh_host 100 100)"]
  by (simp add: Controller_fields_def scenario_layer_def fresh_host_def)


section \<open>clear\<close>

lemma children_fold_element_remove:
  "children (fold element_remove ps h) = filter (\<lambda>e. e \<notin> set ps) (children h)"
  by (induction ps arbitrary: h) (auto simp: element_remove_def intro: filter_cong)

text \<open>
  Claim C7. For every prior state of the pool, the empty pool included, \<open>clear\<close> leaves
  the pool empty and the element of every particle that was in the pool detached from the
  container. It detaches first, over the pool as it was, and resets the array afterwards:
  the children that remain are exactly those that did not belong to a pooled particle, in
  their order.
\<close>

theorem clear_empties_and_detaches:
  "rainflakes (fst (clear (c, h))) = []
   \<and> (\<forall>p \<in> set (rainflakes c). p \<notin> set (children (snd (clear (c, h)))))
   \<and> children (snd (clear (c, h))) = filter (\<lambda>e. e \<notin> set (rainflakes c)) (children h)"
  by (simp add: children_fold_element_remove)

theorem clear_empties_and_detaches_witness:
  "rainflakes (fst two_flakes) = [0, 1]
   \<and> children (snd two_flakes) = [0, 1]
   \<and> rainflakes (fst (clear two_flakes)) = []
   \<and> 0 \<notin> set (children (snd (clear two_flakes)))
   \<and> 1 \<notin> set (children (snd (clear two_flakes)))"
  using clear_empties_and_detaches [of "fst two_flakes" "snd two_flakes"]
  by (simp add: two_flakes_pool two_flakes_children)


section \<open>The command dispatcher\<close>

lemma command_falsy:
  assumes "controllers pg = c0 # cs" and "\<not> truthy (get_property c0 cmd)"
  shows "command L cmd pg = Inr pg"
  using assms by (simp add: command_def)

lemma command_data_property:
  assumes "controllers pg = c0 # cs" and "get_property c0 cmd = Data True"
  shows "command L cmd pg = Inl TypeError"
  using assms by (simp add: command_def)

lemma command_clear:
  assumes "controllers pg = [c1, c2]"
  shows "\<exists>h. command L ''clear'' pg
      = Inr \<lparr>controllers = [c1\<lparr>rainflakes := []\<rparr>, c2\<lparr>rainflakes := []\<rparr>], page_host = h\<rparr>"
  using assms by (simp add: command_def get_property_def)

text \<open>
  Claim C8 says that a name which is not an operation of the first controller makes the
  dispatcher do nothing and raise nothing. The guard of the dispatcher tests whether the
  property is truthy, not whether it is a function (\<open>command_falsy\<close> is the case the
  guard does catch). \<open>config\<close> names no operation, but the first controller has a
  property of that name, an object: the guard lets it through and the call
  \<open>controller[cmd]()\<close> throws a TypeError, on the page that \<open>main\<close> builds in any
  window.
\<close>

theorem command_config_throws: "command L ''config'' (main h) = Inl TypeError"
  by (simp add: command_def main_def CONFIG_def get_property_def split: prod.splits)


section \<open>remove with a particle that is not in the pool\<close>

lemma splice_last: "splice (- 1) (Suc 0) xs = butlast xs"
proof (cases "xs = []")
  case True
  then show ?thesis by (simp add: splice_def)
next
  case False
  then have "nat (int (length xs) - 1) = length xs - 1" by (cases xs) auto
  with False show ?thesis by (simp add: splice_def Let_def butlast_conv_take)
qed

text \<open>
  Claim C9. For a particle \<open>p\<close> that is not in the pool, \<open>remove p\<close> detaches the
  element of \<open>p\<close>; \<open>indexOf\<close> answers -1 and \<open>splice(-1, 1)\<close> deletes the last
  element of the pool, so a non-empty pool loses its last particle, whose element stays
  attached if it was, and an empty pool stays empty.
\<close>

theorem remove_absent_particle:
  assumes "p \<notin> set (rainflakes c)"
  shows "rainflakes (fst (remove p (c, h))) = butlast (rainflakes c)
    \<and> p \<notin> set (children (snd (remove p (c, h))))
    \<and> (rainflakes c \<noteq> [] \<longrightarrow>
         length (rainflakes (fst (remove p (c, h)))) = length (rainflakes c) - 1
         \<and> (last (rainflakes c) \<in> set (children h) \<longrightarrow>
              last (rainflakes c) \<in> set (children (snd (remove p (c, h))))))
    \<and> (rainflakes c = [] \<longrightarrow> rainflakes (fst (remove p (c, h))) = [])"
proof -
  have "rainflakes c \<noteq> [] \<Longrightarrow> last (rainflakes c) \<noteq> p"
    using assms last_in_set by metis
  with assms show ?thesis
    by (auto simp: indexOf_absent splice_last element_remove_def)
qed

theorem remove_absent_particle_witness:
  "rainflakes (fst two_flakes) = [0, 1]
   \<and> children (snd two_flakes) = [0, 1]
   \<and> 7 \<notin> set (rainflakes (fst two_flakes))
   \<and> rainflakes (fst (remove 7 two_flakes)) = [0]
   \<and> 7 \<notin> set (children (snd (remove 7 two_flakes)))
   \<and> 1 \<in> set (children (snd (remove 7 two_flakes)))"
  using remove_absent_particle [of 7 "fst two_flakes" "snd two_flakes"]
  by (simp add: two_flakes_pool two_flakes_children)

end
